theory Spec2Isabelle
  imports Complex_Main
begin

section \<open>Arrays and the numpy operations the notebooks use\<close>

text \<open>
  The exceptions the modelled code can raise. The first three are numpy's
  \<^verbatim>\<open>ValueError\<close>s (a reduction without identity over an axis of size zero, operands
  that cannot be broadcast together, a negative dimension), then numpy's
  \<^verbatim>\<open>IndexError\<close> and Python's \<^verbatim>\<open>ZeroDivisionError\<close>. The last one is the exception
  of reading the operation's cache before any call assigned it.
\<close>

datatype error =
    ZeroSizeReduction
  | BroadcastMismatch
  | NegativeDimensions
  | IndexOutOfBounds
  | ZeroDivision
  | CacheUnset

text \<open>
  A two-dimensional array of shape \<open>(nrows, ncols)\<close> over exact reals. The number of
  columns is kept beside the rows, since numpy distinguishes the shapes \<open>(0, C)\<close>.
\<close>

record ndarray =
  ncols :: nat
  rows :: "real list list"

definition nrows :: "ndarray \<Rightarrow> nat" where
  "nrows A = length (rows A)"

definition well_shaped :: "ndarray \<Rightarrow> bool" where
  "well_shaped A = list_all (\<lambda>r. length r = ncols A) (rows A)"

definition np_exp :: "ndarray \<Rightarrow> ndarray" where
  "np_exp A = \<lparr>ncols = ncols A, rows = map (map exp) (rows A)\<rparr>"

definition np_log :: "ndarray \<Rightarrow> ndarray" where
  "np_log A = \<lparr>ncols = ncols A, rows = map (map ln) (rows A)\<rparr>"

text \<open>\<^verbatim>\<open>-A\<close>.\<close>

definition np_neg :: "ndarray \<Rightarrow> ndarray" where
  "np_neg A = \<lparr>ncols = ncols A, rows = map (map uminus) (rows A)\<rparr>"

text \<open>\<^verbatim>\<open>x + c\<close> for a scalar \<open>c\<close>.\<close>

definition add_scalar :: "ndarray \<Rightarrow> real \<Rightarrow> ndarray" where
  "add_scalar A c = \<lparr>ncols = ncols A, rows = map (map (\<lambda>v. v + c)) (rows A)\<rparr>"

text \<open>\<^verbatim>\<open>A.sum(axis=1)\<close>: the sum of an empty row is 0.\<close>

definition sum_axis1 :: "ndarray \<Rightarrow> real list" where
  "sum_axis1 A = map sum_list (rows A)"

text \<open>\<^verbatim>\<open>np.max(A, axis=1)\<close>: raises when the reduced axis has size zero.\<close>

definition row_max :: "real list \<Rightarrow> real" where
  "row_max r = fold max (tl r) (hd r)"

definition max_axis1 :: "ndarray \<Rightarrow> error + real list" where
  "max_axis1 A = (if ncols A = 0 then Inl ZeroSizeReduction else Inr (map row_max (rows A)))"

text \<open>\<^verbatim>\<open>v.reshape(-1, 1)\<close> of a vector: one column.\<close>

definition reshape_col :: "real list \<Rightarrow> ndarray" where
  "reshape_col v = \<lparr>ncols = 1, rows = map (\<lambda>x. [x]) v\<rparr>"

text \<open>
  Broadcasting of an elementwise binary operation over two 2-d arrays: along each
  axis the sizes agree or one of them is 1, and an axis of size 1 is read at index 0.
\<close>

definition bshape :: "nat \<Rightarrow> nat \<Rightarrow> error + nat" where
  "bshape a b = (if a = b then Inr a else if a = 1 then Inr b
                 else if b = 1 then Inr a else Inl BroadcastMismatch)"

definition bidx :: "nat \<Rightarrow> nat \<Rightarrow> nat" where
  "bidx d i = (if d = 1 then 0 else i)"

definition broadcast :: "(real \<Rightarrow> real \<Rightarrow> real) \<Rightarrow> ndarray \<Rightarrow> ndarray \<Rightarrow> error + ndarray" where
  "broadcast f A B =
     (case bshape (nrows A) (nrows B) of
        Inl e \<Rightarrow> Inl e
      | Inr n \<Rightarrow>
         (case bshape (ncols A) (ncols B) of
            Inl e \<Rightarrow> Inl e
          | Inr c \<Rightarrow>
              Inr \<lparr>ncols = c,
                   rows = map (\<lambda>i. map (\<lambda>j. f (rows A ! bidx (nrows A) i ! bidx (ncols A) j)
                                               (rows B ! bidx (nrows B) i ! bidx (ncols B) j))
                                      [0..<c])
                              [0..<n]\<rparr>))"

section \<open>Softmax\<close>

text \<open>
  The first definition of the notebook:
  \<^verbatim>\<open>e = np.exp(x); e1 = e / e.sum(axis=1).reshape(-1, 1); return e1\<close>
  The divisor of an entry is the sum of the exponentials of its row, which is positive:
  no division by zero takes place.
\<close>

definition softmax_naive :: "ndarray \<Rightarrow> error + ndarray" where
  "softmax_naive x =
     (let e = np_exp x in broadcast (\<lambda>a b. a / b) e (reshape_col (sum_axis1 e)))"

text \<open>
  The second definition, which replaces the first for the rest of the notebook:
  \<^verbatim>\<open>exps = np.exp(logits - np.max(logits, axis=1).reshape(-1, 1))\<close>
  \<^verbatim>\<open>return exps / np.sum(exps, axis=1).reshape(-1, 1)\<close>
\<close>

definition softmax :: "ndarray \<Rightarrow> error + ndarray" where
  "softmax logits =
     (case max_axis1 logits of
        Inl e \<Rightarrow> Inl e
      | Inr m \<Rightarrow>
         (case broadcast (\<lambda>a b. a - b) logits (reshape_col m) of
            Inl e \<Rightarrow> Inl e
          | Inr d \<Rightarrow>
              (let exps = np_exp d
               in broadcast (\<lambda>a b. a / b) exps (reshape_col (sum_axis1 exps)))))"

section \<open>One-hot encoding\<close>

text \<open>
  Labels are numpy integers of 64 bits, written here as the integers they stand for.
  Arithmetic on them wraps around: \<open>wrap_int64\<close> is the value of a result in two's
  complement.
\<close>

definition wrap_int64 :: "int \<Rightarrow> int" where
  "wrap_int64 x = (x + 2 ^ 63) mod 2 ^ 64 - 2 ^ 63"

text \<open>\<^verbatim>\<open>np.max(labels)\<close> of an integer vector: raises on an empty one.\<close>

definition np_max :: "int list \<Rightarrow> error + int" where
  "np_max labels = (case labels of [] \<Rightarrow> Inl ZeroSizeReduction | l # ls \<Rightarrow> Inr (fold max ls l))"

text \<open>
  \<^verbatim>\<open>np.eye(n)\<close>: the identity matrix of floats; a negative size raises. The memory an
  array takes is not limited in this model.
\<close>

definition np_eye :: "int \<Rightarrow> error + ndarray" where
  "np_eye n =
     (if n < 0 then Inl NegativeDimensions
      else Inr \<lparr>ncols = nat n,
                rows = map (\<lambda>i. map (\<lambda>j. if i = j then 1 else 0) [0..<nat n]) [0..<nat n]\<rparr>)"

text \<open>
  \<^verbatim>\<open>A[labels]\<close>: one row of \<open>A\<close> per label. An index \<open>l\<close> with \<open>-n \<le> l < 0\<close>
  counts from the end; any other index outside \<open>[0, n)\<close> raises.
\<close>

definition take_rows :: "ndarray \<Rightarrow> int list \<Rightarrow> error + ndarray" where
  "take_rows A labels =
     (let n = int (nrows A)
      in if list_all (\<lambda>l. - n \<le> l \<and> l < n) labels
         then Inr \<lparr>ncols = ncols A,
                   rows = map (\<lambda>l. rows A ! nat (if l < 0 then l + n else l)) labels\<rparr>
         else Inl IndexOutOfBounds)"

text \<open>
  \<^verbatim>\<open>def to_one_hot(labels, max_labels: int = None):\<close>
  \<^verbatim>\<open>    if max_labels is None: max_labels = np.max(labels) + 1\<close>
  \<^verbatim>\<open>    return np.eye(max_labels)[labels]\<close>
  The sum \<^verbatim>\<open>np.max(labels) + 1\<close> is a 64-bit sum and wraps; an explicit \<^verbatim>\<open>max_labels\<close>
  is a Python integer.
\<close>

definition to_one_hot :: "int list \<Rightarrow> int option \<Rightarrow> error + ndarray" where
  "to_one_hot labels max_labels =
     (case (case max_labels of
              None \<Rightarrow> (case np_max labels of
                         Inl e \<Rightarrow> Inl e
                       | Inr m \<Rightarrow> Inr (wrap_int64 (m + 1)))
            | Some k \<Rightarrow> Inr k) of
        Inl e \<Rightarrow> Inl e
      | Inr k \<Rightarrow> (case np_eye k of Inl e \<Rightarrow> Inl e | Inr E \<Rightarrow> take_rows E labels))"




section \<open>The cross-entropy-with-logits operation\<close>

text \<open>
  The operation object: \<open>cache\<close> is the attribute the class assigns (\<open>None\<close> while it
  has never been assigned); every other attribute of the object is the record's
  extension.
\<close>

record ce_op =
  cache :: "(ndarray \<times> ndarray) option"

text \<open>
  \<^verbatim>\<open>softmaxed = softmax(logits); one_hot = to_one_hot(targets)\<close>
  \<^verbatim>\<open>self.cache = (softmaxed, one_hot)\<close>
  \<^verbatim>\<open>return -np.sum(one_hot * np.log(softmaxed), axis=1)\<close>
  An exception raised before the assignment leaves the object as it was; one raised
  by the product leaves the new cache in place. The arrays hold exact reals: rounding,
  underflow of an exponential to 0.0 and the \<^verbatim>\<open>nan\<close> of \<^verbatim>\<open>0 * -inf\<close> are not part of
  this model, so the vector returned is the exact one.
\<close>

definition forward ::
  "'a ce_op_scheme \<Rightarrow> ndarray \<Rightarrow> int list \<Rightarrow> 'a ce_op_scheme \<times> (error + real list)" where
  "forward self logits targets =
     (case softmax logits of
        Inl e \<Rightarrow> (self, Inl e)
      | Inr softmaxed \<Rightarrow>
         (case to_one_hot targets None of
            Inl e \<Rightarrow> (self, Inl e)
          | Inr one_hot \<Rightarrow>
              (self\<lparr>cache := Some (softmaxed, one_hot)\<rparr>,
               (case broadcast (\<lambda>a b. a * b) one_hot (np_log softmaxed) of
                  Inl e \<Rightarrow> Inl e
                | Inr p \<Rightarrow> Inr (map uminus (sum_axis1 p))))))"

text \<open>
  \<^verbatim>\<open>expanded_output = upstream_gradient.reshape(-1, 1)\<close>
  \<^verbatim>\<open>return (expanded_output * (self.cache[0] * np.expand_dims(np.sum(self.cache[1], axis=1), axis=1) - self.cache[1]),\<close>
  \<^verbatim>\<open>        -expanded_output * np.log(self.cache[0]))\<close>
\<close>

definition backward :: "'a ce_op_scheme \<Rightarrow> real list \<Rightarrow> error + ndarray \<times> ndarray" where
  "backward self upstream_gradient =
     (case cache self of
        None \<Rightarrow> Inl CacheUnset
      | Some (c0, c1) \<Rightarrow>
          (let expanded_output = reshape_col upstream_gradient
           in case broadcast (\<lambda>a b. a * b) c0 (reshape_col (sum_axis1 c1)) of
                Inl e \<Rightarrow> Inl e
              | Inr scaled \<Rightarrow>
                 (case broadcast (\<lambda>a b. a - b) scaled c1 of
                    Inl e \<Rightarrow> Inl e
                  | Inr diff \<Rightarrow>
                     (case broadcast (\<lambda>a b. a * b) expanded_output diff of
                        Inl e \<Rightarrow> Inl e
                      | Inr grad_logits \<Rightarrow>
                         (case broadcast (\<lambda>a b. a * b) (np_neg expanded_output) (np_log c0) of
                            Inl e \<Rightarrow> Inl e
                          | Inr grad_one_hot \<Rightarrow> Inr (grad_logits, grad_one_hot))))))"

section \<open>Metric accumulation\<close>

text \<open>
  \<^verbatim>\<open>class Metric\<close>: the constructor sets \<^verbatim>\<open>cache = 0\<close> and \<^verbatim>\<open>i = 0\<close>. The values are
  Python numbers over exact reals. \<^verbatim>\<open>forward\<close> belongs to the subclass and is a
  parameter here; it may raise.
\<close>

record metric =
  metric_cache :: real
  metric_i :: int

definition Metric_init :: metric where
  "Metric_init = \<lparr>metric_cache = 0, metric_i = 0\<rparr>"

text \<open>
  \<^verbatim>\<open>self.i += 1; self.cache += self.forward(logits.detach(), labels)\<close>
  The counter is incremented before \<^verbatim>\<open>forward\<close> runs, so it stays incremented when
  \<^verbatim>\<open>forward\<close> raises.
\<close>

definition metric_call ::
  "('l \<Rightarrow> 'y \<Rightarrow> error + real) \<Rightarrow> metric \<Rightarrow> 'l \<Rightarrow> 'y \<Rightarrow> metric \<times> (error + unit)" where
  "metric_call forward_fn self logits labels =
     (let self1 = self\<lparr>metric_i := metric_i self + 1\<rparr>
      in case forward_fn logits labels of
           Inl e \<Rightarrow> (self1, Inl e)
         | Inr v \<Rightarrow> (self1\<lparr>metric_cache := metric_cache self1 + v\<rparr>, Inr ()))"

text \<open>
  \<^verbatim>\<open>result = self.cache / self.i; self.cache = 0; self.i = 0; return result\<close>
  The division raises when \<^verbatim>\<open>i\<close> is 0, before anything is reset.
\<close>

definition evaluate :: "metric \<Rightarrow> metric \<times> (error + real)" where
  "evaluate self =
     (if metric_i self = 0 then (self, Inl ZeroDivision)
      else (self\<lparr>metric_cache := 0, metric_i := 0\<rparr>,
            Inr (metric_cache self / real_of_int (metric_i self))))"

text \<open>A sequence of \<^verbatim>\<open>__call__\<close>s on one metric, one per (logits, labels) pair.\<close>

definition metric_calls ::
  "('l \<Rightarrow> 'y \<Rightarrow> error + real) \<Rightarrow> metric \<Rightarrow> ('l \<times> 'y) list \<Rightarrow> metric" where
  "metric_calls forward_fn self batches =
     fold (\<lambda>(logits, labels) s. fst (metric_call forward_fn s logits labels)) batches self"

section \<open>The label file of the transfer-learning notebook\<close>

text \<open>
  A directory is the list of its entries in the order \<^verbatim>\<open>os.scandir\<close> yields them.
  An entry is a regular file, a directory, or something that is neither.
\<close>

datatype node = RegularFile | Directory "(string \<times> node) list" | Special

fun is_dir :: "node \<Rightarrow> bool" where
  "is_dir (Directory _) = True"
| "is_dir _ = False"

fun is_file :: "node \<Rightarrow> bool" where
  "is_file RegularFile = True"
| "is_file _ = False"

fun children :: "node \<Rightarrow> (string \<times> node) list" where
  "children (Directory es) = es"
| "children _ = []"

text \<open>\<^verbatim>\<open>os.path.join(p, name)\<close> for an entry name, which holds no separator.\<close>

definition path_join :: "string \<Rightarrow> string \<Rightarrow> string" where
  "path_join p name = (if p = [] \<or> last p = CHR ''/'' then p @ name else p @ ''/'' @ name)"

text \<open>\<^verbatim>\<open>os.scandir(p)\<close>: every entry with its \<^verbatim>\<open>path\<close> attribute.\<close>

definition scandir :: "string \<Rightarrow> (string \<times> node) list \<Rightarrow> (string \<times> node) list" where
  "scandir p entries = map (\<lambda>(name, nd). (path_join p name, nd)) entries"

text \<open>The data frame: its column names and its rows, a file path and a label each.\<close>

record dataframe =
  df_columns :: "string list"
  df_rows :: "(string \<times> nat) list"

definition df_append :: "dataframe \<Rightarrow> string \<times> nat \<Rightarrow> dataframe" where
  "df_append df row = df\<lparr>df_rows := df_rows df @ [row]\<rparr>"

text \<open>
  \<^verbatim>\<open>subfolders = [f.path for f in os.scandir(root) if f.is_dir()]\<close>
  \<^verbatim>\<open>df = pd.DataFrame(columns=['file_path', 'label'])\<close>
  \<^verbatim>\<open>for i, path in enumerate(subfolders):\<close>
  \<^verbatim>\<open>    files = [f.path for f in os.scandir(path) if f.is_file()]\<close>
  \<^verbatim>\<open>    for f in files: df = df.append({'file_path': f, 'label': i}, ignore_index=True)\<close>
  \<^verbatim>\<open>df.to_csv(root + out_name, index=False)\<close>
  The result is the path written and the frame written there; a subfolder's path
  is kept with the entries that scanning it again yields.
\<close>

definition create_csv :: "string \<Rightarrow> string \<Rightarrow> (string \<times> node) list \<Rightarrow> string \<times> dataframe" where
  "create_csv root_dir out_name entries =
     (let subfolders = filter (\<lambda>(path, nd). is_dir nd) (scandir root_dir entries);
          df = \<lparr>df_columns = [''file_path'', ''label''], df_rows = []\<rparr>;
          df = fold (\<lambda>(i, (path, nd)) df.
                       (let files = map fst (filter (\<lambda>(p, f). is_file f) (scandir path (children nd)))
                        in fold (\<lambda>f df. df_append df (f, i)) files df))
                    (enumerate 0 subfolders) df
      in (root_dir @ out_name, df))"

section \<open>Freezing the pretrained layers\<close>

text \<open>
  A parameter object holds its tensor data and its \<^verbatim>\<open>requires_grad\<close> flag. Parameters
  are objects that the two methods below mutate in place, so they live in a store, from
  the identity of the object to its state. The classifier has the parameters that
  \<^verbatim>\<open>self.features.parameters()\<close> yields (the pretrained convolutional layers) and
  those of \<^verbatim>\<open>self.regressor\<close> (the new head).
\<close>

record parameter =
  data :: "real list"
  requires_grad :: bool

type_synonym store = "nat \<Rightarrow> parameter"

record vgg_classifier =
  features :: "nat list"
  regressor :: "nat list"

text \<open>\<^verbatim>\<open>for param in self.features.parameters(): param.requires_grad = False\<close>\<close>

definition freeze :: "vgg_classifier \<Rightarrow> store \<Rightarrow> store" where
  "freeze self st = fold (\<lambda>param st. st(param := (st param)\<lparr>requires_grad := False\<rparr>)) (features self) st"

text \<open>\<^verbatim>\<open>for param in self.features.parameters(): param.requires_grad = True\<close>\<close>

definition unfreeze :: "vgg_classifier \<Rightarrow> store \<Rightarrow> store" where
  "unfreeze self st = fold (\<lambda>param st. st(param := (st param)\<lparr>requires_grad := True\<rparr>)) (features self) st"

section \<open>Notions the properties are stated with\<close>

text \<open>The softmax of one row, as the textbook writes it.\<close>

definition softmax_row :: "real list \<Rightarrow> real list" where
  "softmax_row r = map (\<lambda>a. exp a / sum_list (map exp r)) r"

text \<open>The subfolders of the root, and the names of the regular files directly in a folder.\<close>

definition subfolder_entries :: "(string \<times> node) list \<Rightarrow> (string \<times> node) list" where
  "subfolder_entries entries = filter (\<lambda>(name, nd). is_dir nd) entries"

definition files_of :: "node \<Rightarrow> string list" where
  "files_of nd = map fst (filter (\<lambda>(name, f). is_file f) (children nd))"

text \<open>
  The root with everything removed that is not a regular file directly in one of its
  subfolders.
\<close>

definition immediate_only :: "(string \<times> node) list \<Rightarrow> (string \<times> node) list" where
  "immediate_only entries =
     map (\<lambda>(name, nd). (name, Directory (filter (\<lambda>(n, f). is_file f) (children nd))))
         (subfolder_entries entries)"

section \<open>Facts about broadcasting against a column\<close>

lemma bidx_less: "i < d \<Longrightarrow> bidx d i = i"
  by (auto simp: bidx_def)

lemma bidx_one: "bidx (Suc 0) j = 0"
  by (simp add: bidx_def)

lemma bshape_one: "bshape c 1 = Inr c"
  by (simp add: bshape_def)

lemma bshape_same: "bshape n n = Inr n"
  by (simp add: bshape_def)

lemma map_nth_fun: "map (\<lambda>j. g (r ! j)) [0..<length r] = map g r"
proof -
  have "map (\<lambda>j. g (r ! j)) [0..<length r] = map g (map (\<lambda>j. r ! j) [0..<length r])"
    by (simp add: comp_def)
  then show ?thesis by (simp add: map_nth)
qed

lemma well_shaped_nth: "well_shaped A \<Longrightarrow> i < nrows A \<Longrightarrow> length (rows A ! i) = ncols A"
  by (simp add: well_shaped_def nrows_def list_all_length)

lemma broadcast_col:
  assumes "well_shaped A" and "length v = nrows A"
  shows "broadcast f A (reshape_col v) =
           Inr \<lparr>ncols = ncols A,
                rows = map (\<lambda>i. map (\<lambda>a. f a (v ! i)) (rows A ! i)) [0..<nrows A]\<rparr>"
proof -
  have n: "nrows (reshape_col v) = nrows A"
    using assms(2) by (simp add: nrows_def reshape_col_def)
  have row: "map (\<lambda>j. f (rows A ! bidx (nrows A) i ! bidx (ncols A) j)
                        (rows (reshape_col v) ! bidx (nrows A) i ! bidx (Suc 0) j)) [0..<ncols A]
             = map (\<lambda>a. f a (v ! i)) (rows A ! i)" if i: "i < nrows A" for i
  proof -
    have len: "length (rows A ! i) = ncols A"
      using assms(1) i by (rule well_shaped_nth)
    have bi: "bidx (nrows A) i = i"
      using i by (rule bidx_less)
    have vi: "rows (reshape_col v) ! i ! 0 = v ! i"
      using i assms(2) by (simp add: reshape_col_def)
    have "map (\<lambda>j. f (rows A ! bidx (nrows A) i ! bidx (ncols A) j)
                     (rows (reshape_col v) ! bidx (nrows A) i ! bidx (Suc 0) j)) [0..<ncols A]
          = map (\<lambda>j. f (rows A ! i ! j) (v ! i)) [0..<length (rows A ! i)]"
      unfolding bi len by (rule map_cong) (simp_all add: bidx_less vi bidx_one)
    then show ?thesis
      using map_nth_fun[of "\<lambda>a. f a (v ! i)" "rows A ! i"] by simp
  qed
  show ?thesis
  proof -
    have c: "ncols (reshape_col v) = 1"
      by (simp add: reshape_col_def)
    show ?thesis
      unfolding broadcast_def n c bshape_same bshape_one
      by (simp add: row)
  qed
qed

section \<open>Softmax, row by row\<close>

lemma well_shaped_np_exp: "well_shaped (np_exp A) = well_shaped A"
  by (simp add: well_shaped_def np_exp_def list_all_iff)

lemma nrows_np_exp: "nrows (np_exp A) = nrows A"
  by (simp add: nrows_def np_exp_def)

lemma softmax_naive_rows:
  assumes "well_shaped x"
  shows "softmax_naive x = Inr \<lparr>ncols = ncols x, rows = map softmax_row (rows x)\<rparr>"
proof -
  let ?e = "np_exp x"
  have ws: "well_shaped ?e" using assms by (simp add: well_shaped_np_exp)
  have len: "length (sum_axis1 ?e) = nrows ?e"
    by (simp add: sum_axis1_def nrows_def)
  have "map (\<lambda>i. map (\<lambda>a. a / (sum_axis1 ?e ! i)) (rows ?e ! i)) [0..<nrows ?e]
        = map (\<lambda>i. softmax_row (rows x ! i)) [0..<length (rows x)]"
    by (rule map_cong) (simp_all add: nrows_def np_exp_def sum_axis1_def softmax_row_def comp_def)
  also have "\<dots> = map softmax_row (rows x)"
    by (rule map_nth_fun)
  finally show ?thesis
    unfolding softmax_naive_def Let_def broadcast_col[OF ws len]
    by (simp add: np_exp_def)
qed

lemma sum_list_exp_shift:
  "sum_list (map (\<lambda>b. exp (b - m)) r) = sum_list (map exp r) * exp (- (m::real))"
proof -
  have "map (\<lambda>b. exp (b - m)) r = map (\<lambda>b. exp b * exp (- m)) r"
    by (simp add: exp_diff exp_minus divide_inverse)
  then show ?thesis
    by (simp only: sum_list_mult_const)
qed

lemma softmax_row_shift:
  "map (\<lambda>a. exp (a - m) / sum_list (map (\<lambda>b. exp (b - m)) r)) r = softmax_row r"
proof -
  have "exp (a - m) / (sum_list (map exp r) * exp (- m)) = exp a / sum_list (map exp r)" for a
  proof -
    have "exp (a - m) = exp a * exp (- m)"
      by (simp add: exp_diff exp_minus divide_inverse)
    then show ?thesis by simp
  qed
  then show ?thesis
    by (simp add: softmax_row_def sum_list_exp_shift)
qed

lemma softmax_rows:
  assumes "well_shaped x" and "0 < ncols x"
  shows "softmax x = Inr \<lparr>ncols = ncols x, rows = map softmax_row (rows x)\<rparr>"
proof -
  let ?m = "map row_max (rows x)"
  have mx: "max_axis1 x = Inr ?m"
    using assms(2) by (simp add: max_axis1_def)
  have lm: "length ?m = nrows x" by (simp add: nrows_def)
  define d where "d = \<lparr>ncols = ncols x,
       rows = map (\<lambda>i. map (\<lambda>a. a - ?m ! i) (rows x ! i)) [0..<nrows x]\<rparr>"
  have sub: "broadcast (\<lambda>a b. a - b) x (reshape_col ?m) = Inr d"
    unfolding d_def by (rule broadcast_col[OF assms(1) lm])
  let ?e = "np_exp d"
  have wd: "well_shaped d"
    using assms(1) by (simp add: d_def well_shaped_def list_all_length nrows_def)
  have ws: "well_shaped ?e" using wd by (simp add: well_shaped_np_exp)
  have len: "length (sum_axis1 ?e) = nrows ?e"
    by (simp add: sum_axis1_def nrows_def)
  have "map (\<lambda>i. map (\<lambda>a. a / (sum_axis1 ?e ! i)) (rows ?e ! i)) [0..<nrows ?e]
        = map (\<lambda>i. softmax_row (rows x ! i)) [0..<length (rows x)]"
  proof (rule map_cong)
    show "[0..<nrows ?e] = [0..<length (rows x)]"
      by (simp add: nrows_def np_exp_def d_def)
  next
    fix i assume "i \<in> set [0..<length (rows x)]"
    then have i: "i < length (rows x)" by simp
    have "map (\<lambda>a. a / (sum_axis1 ?e ! i)) (rows ?e ! i)
          = map (\<lambda>a. exp (a - row_max (rows x ! i))
                   / sum_list (map (\<lambda>b. exp (b - row_max (rows x ! i))) (rows x ! i))) (rows x ! i)"
      using i by (simp add: nrows_def np_exp_def sum_axis1_def d_def comp_def)
    then show "map (\<lambda>a. a / (sum_axis1 ?e ! i)) (rows ?e ! i) = softmax_row (rows x ! i)"
      by (simp only: softmax_row_shift)
  qed
  also have "\<dots> = map softmax_row (rows x)"
    by (rule map_nth_fun)
  finally have "broadcast (\<lambda>a b. a / b) ?e (reshape_col (sum_axis1 ?e))
                 = Inr \<lparr>ncols = ncols x, rows = map softmax_row (rows x)\<rparr>"
    unfolding broadcast_col[OF ws len] by (simp add: np_exp_def d_def)
  then show ?thesis
    by (simp add: softmax_def mx sub Let_def)
qed

lemma softmax_no_columns: "ncols x = 0 \<Longrightarrow> softmax x = Inl ZeroSizeReduction"
  by (simp add: softmax_def max_axis1_def)

lemma softmax_row_add: "softmax_row (map (\<lambda>v. v + c) r) = softmax_row r"
proof -
  have "sum_list (map (\<lambda>b. exp (b + c)) r) = sum_list (map exp r) * exp c"
    by (induction r) (simp_all add: exp_add distrib_right)
  then show ?thesis
    by (simp add: softmax_row_def comp_def exp_add)
qed

lemma well_shaped_add_scalar: "well_shaped (add_scalar x c) = well_shaped x"
  by (simp add: well_shaped_def add_scalar_def list_all_iff)

text \<open>
  Claim C1. Softmax is invariant under adding a scalar to every logit: for every
  matrix \<open>x\<close> and every scalar \<open>c\<close>, \<open>softmax (x + c) = softmax x\<close>, for the naive
  definition and for the max-subtracting one (which raises for both arguments when
  the matrix has no column).
\<close>

theorem softmax_shift_invariant:
  assumes "well_shaped x"
  shows "softmax_naive (add_scalar x c) = softmax_naive x
       \<and> softmax (add_scalar x c) = softmax x"
proof
  have ws: "well_shaped (add_scalar x c)"
    using assms by (simp add: well_shaped_add_scalar)
  have rw: "map softmax_row (rows (add_scalar x c)) = map softmax_row (rows x)"
    by (simp add: add_scalar_def comp_def softmax_row_add)
  have nc: "ncols (add_scalar x c) = ncols x"
    by (simp add: add_scalar_def)
  show "softmax_naive (add_scalar x c) = softmax_naive x"
    by (simp add: softmax_naive_rows[OF ws] softmax_naive_rows[OF assms] rw nc)
  show "softmax (add_scalar x c) = softmax x"
  proof (cases "ncols x = 0")
    case True
    then show ?thesis by (simp add: softmax_no_columns nc)
  next
    case False
    then have p: "0 < ncols x" "0 < ncols (add_scalar x c)" by (simp_all add: nc)
    show ?thesis
      by (simp add: softmax_rows[OF ws p(2)] softmax_rows[OF assms p(1)] rw nc)
  qed
qed

theorem softmax_shift_invariant_witness:
  "well_shaped \<lparr>ncols = 3, rows = [[5, - 2, 0]]\<rparr>
   \<and> softmax_naive (add_scalar \<lparr>ncols = 3, rows = [[5, - 2, 0]]\<rparr> 6)
       = softmax_naive \<lparr>ncols = 3, rows = [[5, - 2, 0]]\<rparr>
   \<and> softmax (add_scalar \<lparr>ncols = 3, rows = [[5, - 2, 0]]\<rparr> 6)
       = softmax \<lparr>ncols = 3, rows = [[5, - 2, 0]]\<rparr>"
  using softmax_shift_invariant[of "\<lparr>ncols = 3, rows = [[5, - 2, 0]]\<rparr>" 6]
  by (simp add: well_shaped_def)

text \<open>
  Claim C4, as amended. On every matrix with at least one column the stable softmax,
  which subtracts the maximum of each row before exponentiating, returns what the
  naive softmax returns.
\<close>

theorem stable_softmax_refines_naive:
  assumes "well_shaped x" and "0 < ncols x"
  shows "softmax x = softmax_naive x"
  by (simp add: softmax_rows[OF assms] softmax_naive_rows[OF assms(1)])

theorem stable_softmax_refines_naive_witness:
  "well_shaped \<lparr>ncols = 3, rows = [[1000, 9, 8], [11, 12, 15]]\<rparr>
   \<and> 0 < ncols \<lparr>ncols = 3, rows = [[1000, 9, 8], [11, 12, 15]]\<rparr>
   \<and> softmax \<lparr>ncols = 3, rows = [[1000, 9, 8], [11, 12, 15]]\<rparr>
       = softmax_naive \<lparr>ncols = 3, rows = [[1000, 9, 8], [11, 12, 15]]\<rparr>"
  using stable_softmax_refines_naive[of "\<lparr>ncols = 3, rows = [[1000, 9, 8], [11, 12, 15]]\<rparr>"]
  by (simp add: well_shaped_def)

text \<open>
  Claim C4 as stated fails on a matrix of shape \<open>(1, 0)\<close>: the maximum over an empty
  row raises, while the naive softmax returns the empty matrix.
\<close>

theorem stable_softmax_differs_on_zero_columns:
  "well_shaped \<lparr>ncols = 0, rows = [[]]\<rparr>
   \<and> softmax \<lparr>ncols = 0, rows = [[]]\<rparr> = Inl ZeroSizeReduction
   \<and> softmax_naive \<lparr>ncols = 0, rows = [[]]\<rparr> = Inr \<lparr>ncols = 0, rows = [[]]\<rparr>
   \<and> softmax \<lparr>ncols = 0, rows = [[]]\<rparr> \<noteq> softmax_naive \<lparr>ncols = 0, rows = [[]]\<rparr>"
  by (simp add: well_shaped_def softmax_def max_axis1_def softmax_naive_def
      np_exp_def sum_axis1_def reshape_col_def broadcast_def nrows_def bshape_def)

section \<open>One-hot encoding and back\<close>

lemma np_max_Max:
  assumes "labels \<noteq> []"
  shows "np_max labels = Inr (Max (set labels))"
proof (cases labels)
  case Nil
  with assms show ?thesis by simp
next
  case (Cons l ls)
  have "Max (set (l # ls)) = fold max ls l"
    by (rule Max.set_eq_fold)
  then show ?thesis
    unfolding Cons by (simp add: np_max_def)
qed

lemma wrap_int64_id: "- (2 ^ 63) \<le> x \<Longrightarrow> x < 2 ^ 63 \<Longrightarrow> wrap_int64 x = x"
  by (simp add: wrap_int64_def)

lemma wrap_int64_range: "- (2 ^ 63) \<le> wrap_int64 x \<and> wrap_int64 x < 2 ^ 63"
proof -
  have "0 \<le> (x + 2 ^ 63) mod 2 ^ 64" and "(x + 2 ^ 63) mod 2 ^ 64 < (2 ^ 64 :: int)"
    by simp_all
  moreover have "(2 :: int) ^ 64 = 2 ^ 63 + 2 ^ 63" by simp
  ultimately show ?thesis
    unfolding wrap_int64_def by linarith
qed

lemma to_one_hot_wrapped:
  "labels \<noteq> [] \<Longrightarrow>
     to_one_hot labels None = to_one_hot labels (Some (wrap_int64 (Max (set labels) + 1)))"
  by (simp add: to_one_hot_def np_max_Max)

lemma to_one_hot_inferred:
  assumes "labels \<noteq> []" and "0 \<le> Max (set labels)" and "Max (set labels) < 2 ^ 63 - 1"
  shows "to_one_hot labels None = to_one_hot labels (Some (Max (set labels) + 1))"
proof -
  have "wrap_int64 (Max (set labels) + 1) = Max (set labels) + 1"
    using assms(2,3) by (intro wrap_int64_id) linarith+
  then show ?thesis
    using to_one_hot_wrapped[OF assms(1)] by simp
qed

lemma to_one_hot_rows:
  assumes "0 \<le> k" and "\<forall>l\<in>set labels. 0 \<le> l \<and> l < k"
  shows "to_one_hot labels (Some k) =
           Inr \<lparr>ncols = nat k,
                rows = map (\<lambda>l. map (\<lambda>j. if nat l = j then 1 else 0) [0..<nat k]) labels\<rparr>"
proof -
  let ?E = "\<lparr>ncols = nat k,
             rows = map (\<lambda>i. map (\<lambda>j. if i = j then 1 else 0) [0..<nat k]) [0..<nat k]\<rparr>"
  have eye: "np_eye k = Inr ?E"
    using assms(1) by (simp add: np_eye_def)
  have n: "int (nrows ?E) = k"
    using assms(1) by (simp add: nrows_def)
  have ok: "list_all (\<lambda>l. - k \<le> l \<and> l < k) labels"
    using assms(2) by (auto simp: list_all_iff)
  have "map (\<lambda>l. rows ?E ! nat (if l < 0 then l + k else l)) labels
        = map (\<lambda>l. map (\<lambda>j. if nat l = j then 1 else 0) [0..<nat k]) labels"
    by (rule map_cong) (use assms(2) in \<open>auto simp: nat_less_iff\<close>)
  then have "take_rows ?E labels =
           Inr \<lparr>ncols = nat k,
                rows = map (\<lambda>l. map (\<lambda>j. if nat l = j then 1 else 0) [0..<nat k]) labels\<rparr>"
    unfolding take_rows_def Let_def n using ok by simp
  then show ?thesis
    by (simp add: to_one_hot_def eye)
qed





lemma Max_nonneg:
  assumes "labels \<noteq> []" and "\<forall>l\<in>set labels. (0::int) \<le> l"
  shows "0 \<le> Max (set labels)"
proof -
  have "Max (set labels) \<in> set labels"
    using assms(1) by (intro Max_in) simp_all
  with assms(2) show ?thesis by (rule bspec)
qed




section \<open>The forward pass\<close>

lemma bshape_commute: "bshape a b = bshape b a"
  by (auto simp: bshape_def)

lemma broadcast_flip: "broadcast f A B = broadcast (\<lambda>a b. f b a) B A"
  unfolding broadcast_def bshape_commute[of "nrows A"] bshape_commute[of "ncols A"]
  by (rule refl)

lemma broadcast_same:
  assumes "nrows A = nrows B" and "ncols A = ncols B"
  shows "broadcast f A B =
           Inr \<lparr>ncols = ncols A,
                rows = map (\<lambda>i. map (\<lambda>j. f (rows A ! i ! j) (rows B ! i ! j)) [0..<ncols A])
                           [0..<nrows A]\<rparr>"
proof -
  have "map (\<lambda>i. map (\<lambda>j. f (rows A ! bidx (nrows B) i ! bidx (ncols B) j)
                            (rows B ! bidx (nrows B) i ! bidx (ncols B) j)) [0..<ncols B])
            [0..<nrows B]
        = map (\<lambda>i. map (\<lambda>j. f (rows A ! i ! j) (rows B ! i ! j)) [0..<ncols B]) [0..<nrows B]"
    by (intro map_cong refl) (simp add: bidx_less)
  then show ?thesis
    unfolding broadcast_def assms bshape_same by simp
qed

lemma broadcast_col_left:
  assumes "well_shaped A" and "length v = nrows A"
  shows "broadcast f (reshape_col v) A =
           Inr \<lparr>ncols = ncols A,
                rows = map (\<lambda>i. map (\<lambda>a. f (v ! i) a) (rows A ! i)) [0..<nrows A]\<rparr>"
  unfolding broadcast_flip[of f "reshape_col v" A]
  by (rule broadcast_col[OF assms])

lemma sum_list_one_hot:
  fixes g :: "nat \<Rightarrow> real"
  assumes "k < n"
  shows "sum_list (map (\<lambda>j. (if k = j then 1 else 0) * g j) [0..<n]) = g k"
proof -
  have "sum_list (map (\<lambda>j. (if k = j then 1 else 0) * g j) [0..<n])
        = (\<Sum>j\<in>{0..<n}. (if k = j then 1 else 0) * g j)"
    by (simp add: interv_sum_list_conv_sum_set_nat)
  also have "\<dots> = (\<Sum>j\<in>{0..<n}. if j = k then g j else 0)"
    by (rule sum.cong) auto
  also have "\<dots> = g k"
    using assms by (simp add: sum.delta)
  finally show ?thesis .
qed

lemma sum_list_one_hot_row:
  assumes "k < n"
  shows "sum_list (map (\<lambda>j. if k = j then 1 else 0) [0..<n]) = (1::real)"
  using sum_list_one_hot[OF assms, of "\<lambda>_. 1"] by simp


lemma to_one_hot_inferred_rows:
  assumes "targets \<noteq> []" and "\<forall>t\<in>set targets. 0 \<le> t"
    and "Max (set targets) < 2 ^ 63 - 1"
  shows "to_one_hot targets None =
           Inr \<lparr>ncols = nat (Max (set targets) + 1),
                rows = map (\<lambda>l. map (\<lambda>j. if nat l = j then 1 else 0)
                                      [0..<nat (Max (set targets) + 1)]) targets\<rparr>"
proof -
  have bound: "\<forall>l\<in>set targets. 0 \<le> l \<and> l < Max (set targets) + 1"
  proof
    fix l assume l: "l \<in> set targets"
    then have "l \<le> Max (set targets)" by simp
    then have "l < Max (set targets) + 1" by linarith
    moreover have "0 \<le> l" using assms(2) l by blast
    ultimately show "0 \<le> l \<and> l < Max (set targets) + 1" by blast
  qed
  obtain l0 where "l0 \<in> set targets" using assms(1) by (cases targets) auto
  with bound have "0 \<le> l0 \<and> l0 < Max (set targets) + 1" by (rule bspec)
  then have width: "0 \<le> Max (set targets) + 1" by linarith
  have "0 \<le> Max (set targets)"
    using assms(1,2) by (rule Max_nonneg)
  then have eq: "to_one_hot targets None = to_one_hot targets (Some (Max (set targets) + 1))"
    using assms(3) by (intro to_one_hot_inferred[OF assms(1)])
  show ?thesis
    unfolding eq using width bound by (rule to_one_hot_rows)
qed

text \<open>
  When the inferred one-hot encoding of nonnegative labels is returned at all, the
  width did not wrap around.
\<close>

lemma to_one_hot_returned:
  assumes "to_one_hot labels None = Inr one_hot" and "\<forall>l\<in>set labels. 0 \<le> l"
  shows "labels \<noteq> [] \<and> Max (set labels) < 2 ^ 63 - 1"
proof -
  have ne: "labels \<noteq> []"
    using assms(1) by (cases labels) (simp_all add: to_one_hot_def np_max_def)
  define k where "k = wrap_int64 (Max (set labels) + 1)"
  have some: "to_one_hot labels (Some k) = Inr one_hot"
    using assms(1) to_one_hot_wrapped[OF ne] by (simp add: k_def)
  have kpos: "0 \<le> k"
    using some by (cases "k < 0") (simp_all add: to_one_hot_def np_eye_def)
  have mem: "Max (set labels) \<in> set labels"
    using ne by (intro Max_in) simp_all
  have "list_all (\<lambda>l. - k \<le> l \<and> l < k) labels"
  proof (rule ccontr)
    assume "\<not> list_all (\<lambda>l. - k \<le> l \<and> l < k) labels"
    then have "to_one_hot labels (Some k) = Inl IndexOutOfBounds"
      using kpos by (simp add: to_one_hot_def np_eye_def take_rows_def nrows_def)
    with some show False by simp
  qed
  with mem have "Max (set labels) < k"
    by (simp add: list_all_iff)
  moreover have "k < 2 ^ 63"
    unfolding k_def using wrap_int64_range by blast
  ultimately have "Max (set labels) < 2 ^ 63 - 1" by linarith
  with ne show ?thesis by blast
qed

lemma forward_cached:
  assumes "softmax logits = Inr softmaxed" and "to_one_hot targets None = Inr one_hot"
  shows "forward self logits targets =
           (self\<lparr>cache := Some (softmaxed, one_hot)\<rparr>,
            (case broadcast (\<lambda>a b. a * b) one_hot (np_log softmaxed) of
               Inl e \<Rightarrow> Inl e
             | Inr p \<Rightarrow> Inr (map uminus (sum_axis1 p))))"
  by (simp add: forward_def assms)

lemma bshape_error: "bshape a b = Inl e \<longleftrightarrow> a \<noteq> b \<and> a \<noteq> 1 \<and> b \<noteq> 1 \<and> e = BroadcastMismatch"
  by (auto simp: bshape_def)

lemma broadcast_rows_agree:
  assumes "nrows A = nrows B"
  shows "broadcast f A B =
           (case bshape (ncols A) (ncols B) of
              Inl e \<Rightarrow> Inl e
            | Inr c \<Rightarrow>
                Inr \<lparr>ncols = c,
                     rows = map (\<lambda>i. map (\<lambda>j. f (rows A ! bidx (nrows A) i ! bidx (ncols A) j)
                                                 (rows B ! bidx (nrows B) i ! bidx (ncols B) j))
                                        [0..<c])
                                [0..<nrows A]\<rparr>)"
  unfolding broadcast_def assms bshape_same by simp

lemma forward_outcome:
  assumes "well_shaped logits" and "targets \<noteq> []" and "length targets = nrows logits"
    and "\<forall>t\<in>set targets. 0 \<le> t \<and> t < int (ncols logits)"
    and "Max (set targets) < 2 ^ 63 - 1"
  shows "(snd (forward self logits targets) = Inl BroadcastMismatch
            \<longleftrightarrow> Max (set targets) + 1 \<noteq> int (ncols logits) \<and> Max (set targets) + 1 \<noteq> 1)
       \<and> (snd (forward self logits targets) = Inl BroadcastMismatch
            \<or> (\<exists>loss. snd (forward self logits targets) = Inr loss \<and> length loss = nrows logits))"
proof -
  let ?C = "ncols logits"
  let ?M = "nat (Max (set targets) + 1)"
  let ?sm = "\<lparr>ncols = ?C, rows = map softmax_row (rows logits)\<rparr>"
  let ?oh = "\<lparr>ncols = ?M,
              rows = map (\<lambda>l. map (\<lambda>j. if nat l = j then 1 else 0) [0..<?M]) targets\<rparr>"
  have mem: "Max (set targets) \<in> set targets"
    using assms(2) by (intro Max_in) simp_all
  with assms(4) have mx: "0 \<le> Max (set targets) \<and> Max (set targets) < int ?C"
    by (rule bspec)
  then have cpos: "0 < ?C" by linarith
  have sm: "softmax logits = Inr ?sm"
    using assms(1) cpos by (rule softmax_rows)
  have nonneg: "\<forall>t\<in>set targets. 0 \<le> t" using assms(4) by blast
  have oh: "to_one_hot targets None = Inr ?oh"
    by (rule to_one_hot_inferred_rows[OF assms(2) nonneg assms(5)])
  have n: "nrows ?oh = nrows (np_log ?sm)"
    using assms(3) by (simp add: nrows_def np_log_def)
  have nl: "nrows ?oh = nrows logits"
    using assms(3) by (simp add: nrows_def)
  have cols: "ncols ?oh = ?M" "ncols (np_log ?sm) = ?C"
    by (simp_all add: np_log_def)
  have res: "snd (forward self logits targets) =
          (case bshape ?M ?C of
             Inl e \<Rightarrow> Inl e
           | Inr c \<Rightarrow> Inr (map uminus (sum_axis1
                \<lparr>ncols = c,
                 rows = map (\<lambda>i. map (\<lambda>j. rows ?oh ! bidx (nrows ?oh) i ! bidx ?M j
                                           * rows (np_log ?sm) ! bidx (nrows (np_log ?sm)) i ! bidx ?C j)
                                        [0..<c])
                            [0..<nrows ?oh]\<rparr>)))"
    unfolding forward_cached[OF sm oh] broadcast_rows_agree[OF n] cols
    by (simp split: sum.splits)
  have width: "?M = ?C \<longleftrightarrow> Max (set targets) + 1 = int ?C"
              "?M = 1 \<longleftrightarrow> Max (set targets) + 1 = 1"
    using mx by auto
  have c1: "?C = 1 \<Longrightarrow> ?M = 1" using mx by auto
  show ?thesis
  proof (cases "bshape ?M ?C")
    case (Inl e)
    then have e: "?M \<noteq> ?C \<and> ?M \<noteq> 1 \<and> ?C \<noteq> 1 \<and> e = BroadcastMismatch"
      by (rule iffD1[OF bshape_error])
    then have "snd (forward self logits targets) = Inl BroadcastMismatch"
      unfolding res Inl by simp
    moreover have "Max (set targets) + 1 \<noteq> int ?C \<and> Max (set targets) + 1 \<noteq> 1"
      using e width by blast
    ultimately show ?thesis by blast
  next
    case (Inr c)
    have ok: "?M = ?C \<or> ?M = 1"
    proof (rule ccontr)
      assume "\<not> (?M = ?C \<or> ?M = 1)"
      with c1 have "bshape ?M ?C = Inl BroadcastMismatch" by (auto simp: bshape_def)
      with Inr show False by simp
    qed
    have "\<exists>loss. snd (forward self logits targets) = Inr loss \<and> length loss = nrows logits"
      unfolding res Inr using nl by (simp add: sum_axis1_def)
    moreover from this have "snd (forward self logits targets) \<noteq> Inl BroadcastMismatch"
      by auto
    moreover have "\<not> (Max (set targets) + 1 \<noteq> int ?C \<and> Max (set targets) + 1 \<noteq> 1)"
      using ok width by blast
    ultimately show ?thesis by blast
  qed
qed

text \<open>
  Claim C5 says that \<open>forward\<close> fails exactly when the inferred one-hot width differs
  from the number of classes. The code does not: with two classes and the single
  target 0 the inferred width is 1, not 2, and \<open>forward\<close> returns. The one-hot column
  is broadcast over both classes, so the value returned is the sum over all classes,
  \<open>- (ln (1/2) + ln (1/2))\<close>, not the loss \<open>- ln (1/2)\<close> of the example.
\<close>

theorem forward_returns_on_width_one:
  "well_shaped \<lparr>ncols = 2, rows = [[0, 0]]\<rparr>
   \<and> length [0 :: int] = nrows \<lparr>ncols = 2, rows = [[0, 0]]\<rparr>
   \<and> list_all (\<lambda>t. 0 \<le> t \<and> t < int (ncols \<lparr>ncols = 2, rows = [[0, 0]]\<rparr>)) [0 :: int]
   \<and> Max (set [0 :: int]) + 1 \<noteq> int (ncols \<lparr>ncols = 2, rows = [[0, 0]]\<rparr>)
   \<and> softmax \<lparr>ncols = 2, rows = [[0, 0]]\<rparr> = Inr \<lparr>ncols = 2, rows = [[1 / 2, 1 / 2]]\<rparr>
   \<and> to_one_hot [0] None = Inr \<lparr>ncols = 1, rows = [[1]]\<rparr>
   \<and> snd (forward \<lparr>cache = None\<rparr> \<lparr>ncols = 2, rows = [[0, 0]]\<rparr> [0])
       = Inr [- (ln (1 / 2) + ln (1 / 2))]"
  by (simp add: forward_def softmax_def max_axis1_def row_max_def reshape_col_def broadcast_def
      nrows_def bshape_def bidx_def np_exp_def sum_axis1_def to_one_hot_def np_max_def np_eye_def
      take_rows_def np_log_def upt_rec well_shaped_def wrap_int64_def)

section \<open>The backward pass and the cache\<close>

lemma np_neg_reshape_col: "np_neg (reshape_col v) = reshape_col (map uminus v)"
  by (simp add: np_neg_def reshape_col_def)

lemma broadcast_narrow:
  assumes "nrows B = nrows A" and "ncols B = ncols A \<or> ncols B = 1"
  shows "broadcast f A B =
           Inr \<lparr>ncols = ncols A,
                rows = map (\<lambda>i. map (\<lambda>j. f (rows A ! i ! j)
                                            (rows B ! i ! (if ncols B = ncols A then j else 0)))
                                   [0..<ncols A])
                           [0..<nrows A]\<rparr>"
proof -
  have sh: "bshape (ncols A) (ncols B) = Inr (ncols A)"
    using assms(2) by (auto simp: bshape_def)
  have ix: "bidx (ncols B) j = (if ncols B = ncols A then j else 0)" if "j < ncols A" for j
    using assms(2) that by (auto simp: bidx_def)
  have "map (\<lambda>i. map (\<lambda>j. f (rows A ! bidx (nrows A) i ! bidx (ncols A) j)
                            (rows B ! bidx (nrows A) i ! bidx (ncols B) j)) [0..<ncols A])
            [0..<nrows A]
        = map (\<lambda>i. map (\<lambda>j. f (rows A ! i ! j)
                                (rows B ! i ! (if ncols B = ncols A then j else 0)))
                       [0..<ncols A]) [0..<nrows A]"
    by (intro map_cong refl) (simp add: bidx_less ix)
  then show ?thesis
    unfolding broadcast_def assms(1) bshape_same sh by simp
qed

lemma backward_on_cache:
  assumes c: "cache self = Some (c0, c1)"
    and w0: "well_shaped c0"
    and n1: "nrows c1 = nrows c0" and m1: "ncols c1 = ncols c0 \<or> ncols c1 = 1"
    and up: "length upstream_gradient = nrows c0"
    and one: "\<forall>r\<in>set (rows c1). sum_list r = 1"
  shows "backward self upstream_gradient =
           Inr (\<lparr>ncols = ncols c0,
                 rows = map (\<lambda>i. map (\<lambda>j. upstream_gradient ! i
                                 * (rows c0 ! i ! j
                                    - rows c1 ! i ! (if ncols c1 = ncols c0 then j else 0)))
                                        [0..<ncols c0])
                            [0..<nrows c0]\<rparr>,
                \<lparr>ncols = ncols c0,
                 rows = map (\<lambda>i. map (\<lambda>a. - upstream_gradient ! i * ln a) (rows c0 ! i))
                            [0..<nrows c0]\<rparr>)"
proof -
  let ?n = "nrows c0" and ?C = "ncols c0"
  have ls: "length (sum_axis1 c1) = ?n"
    using n1 by (simp add: sum_axis1_def nrows_def)
  have "map (\<lambda>i. map (\<lambda>a. a * sum_axis1 c1 ! i) (rows c0 ! i)) [0..<?n]
        = map (\<lambda>i. rows c0 ! i) [0..<length (rows c0)]"
  proof (rule map_cong)
    fix i assume "i \<in> set [0..<length (rows c0)]"
    then have "i < length (rows c1)" using n1 by (simp add: nrows_def)
    then have "sum_axis1 c1 ! i = 1" using one by (simp add: sum_axis1_def)
    then show "map (\<lambda>a. a * sum_axis1 c1 ! i) (rows c0 ! i) = rows c0 ! i" by simp
  qed (simp add: nrows_def)
  then have scaled: "broadcast (\<lambda>a b. a * b) c0 (reshape_col (sum_axis1 c1)) = Inr c0"
    unfolding broadcast_col[OF w0 ls] by (simp add: map_nth)
  define d where "d = \<lparr>ncols = ?C,
      rows = map (\<lambda>i. map (\<lambda>j. rows c0 ! i ! j - rows c1 ! i ! (if ncols c1 = ?C then j else 0))
                         [0..<?C]) [0..<?n]\<rparr>"
  have diff: "broadcast (\<lambda>a b. a - b) c0 c1 = Inr d"
    unfolding d_def by (rule broadcast_narrow[OF n1 m1])
  have wd: "well_shaped d"
    by (simp add: d_def well_shaped_def list_all_iff)
  have nd: "nrows d = ?n" "ncols d = ?C"
    by (simp_all add: d_def nrows_def)
  have upd: "length upstream_gradient = nrows d"
    using up nd by simp
  have "map (\<lambda>i. map (\<lambda>a. upstream_gradient ! i * a) (rows d ! i)) [0..<?n]
        = map (\<lambda>i. map (\<lambda>j. upstream_gradient ! i
                         * (rows c0 ! i ! j - rows c1 ! i ! (if ncols c1 = ?C then j else 0)))
                       [0..<?C])
              [0..<?n]"
    by (rule map_cong) (simp_all add: d_def comp_def)
  then have g1: "broadcast (\<lambda>a b. a * b) (reshape_col upstream_gradient) d =
      Inr \<lparr>ncols = ?C,
           rows = map (\<lambda>i. map (\<lambda>j. upstream_gradient ! i
                         * (rows c0 ! i ! j - rows c1 ! i ! (if ncols c1 = ?C then j else 0)))
                                  [0..<?C]) [0..<?n]\<rparr>"
    unfolding broadcast_col_left[OF wd upd] nd by simp
  have wl: "well_shaped (np_log c0)"
    using w0 by (simp add: well_shaped_def np_log_def list_all_iff)
  have nl: "nrows (np_log c0) = ?n" "ncols (np_log c0) = ?C"
    by (simp_all add: np_log_def nrows_def)
  have upl: "length (map uminus upstream_gradient) = nrows (np_log c0)"
    using up nl by simp
  have "map (\<lambda>i. map (\<lambda>a. map uminus upstream_gradient ! i * a) (rows (np_log c0) ! i)) [0..<?n]
        = map (\<lambda>i. map (\<lambda>a. - upstream_gradient ! i * ln a) (rows c0 ! i)) [0..<?n]"
    by (rule map_cong) (use up in \<open>simp_all add: np_log_def nrows_def comp_def\<close>)
  then have g2: "broadcast (\<lambda>a b. a * b) (np_neg (reshape_col upstream_gradient)) (np_log c0) =
      Inr \<lparr>ncols = ?C,
           rows = map (\<lambda>i. map (\<lambda>a. - upstream_gradient ! i * ln a) (rows c0 ! i)) [0..<?n]\<rparr>"
    unfolding np_neg_reshape_col broadcast_col_left[OF wl upl] nl by simp
  show ?thesis
    by (simp add: backward_def c scaled diff g1 g2)
qed

lemma to_one_hot_no_labels: "to_one_hot [] None = Inl ZeroSizeReduction"
  by (simp add: to_one_hot_def np_max_def)

lemma forward_returned:
  assumes "well_shaped logits" and "length targets = nrows logits"
    and "\<forall>t\<in>set targets. 0 \<le> t \<and> t < int (ncols logits)"
    and "\<not> isl (snd (forward self logits targets))"
  shows "\<exists>softmaxed one_hot.
           softmax logits = Inr softmaxed
         \<and> softmaxed = \<lparr>ncols = ncols logits, rows = map softmax_row (rows logits)\<rparr>
         \<and> to_one_hot targets None = Inr one_hot
         \<and> one_hot = \<lparr>ncols = nat (Max (set targets) + 1),
                       rows = map (\<lambda>l. map (\<lambda>j. if nat l = j then 1 else 0)
                                             [0..<nat (Max (set targets) + 1)]) targets\<rparr>
         \<and> (ncols one_hot = ncols logits \<or> ncols one_hot = 1)
         \<and> fst (forward self logits targets) = self\<lparr>cache := Some (softmaxed, one_hot)\<rparr>"
proof -
  let ?C = "ncols logits"
  let ?M = "nat (Max (set targets) + 1)"
  let ?sm = "\<lparr>ncols = ?C, rows = map softmax_row (rows logits)\<rparr>"
  let ?oh = "\<lparr>ncols = ?M,
              rows = map (\<lambda>l. map (\<lambda>j. if nat l = j then 1 else 0) [0..<?M]) targets\<rparr>"
  from assms(4) obtain softmaxed where sm0: "softmax logits = Inr softmaxed"
    by (cases "softmax logits") (simp_all add: forward_def)
  then have cpos: "0 < ?C"
    by (cases "?C = 0") (simp_all add: softmax_no_columns)
  have sm: "softmax logits = Inr ?sm"
    using assms(1) cpos by (rule softmax_rows)
  from assms(4) sm obtain one_hot where oh0: "to_one_hot targets None = Inr one_hot"
    by (cases "to_one_hot targets None") (simp_all add: forward_def)
  then have ne: "targets \<noteq> []"
    by (cases targets) (simp_all add: to_one_hot_no_labels)
  have nonneg: "\<forall>t\<in>set targets. 0 \<le> t" using assms(3) by blast
  have fits: "Max (set targets) < 2 ^ 63 - 1"
    using to_one_hot_returned[OF oh0 nonneg] by blast
  have oh: "to_one_hot targets None = Inr ?oh"
    by (rule to_one_hot_inferred_rows[OF ne nonneg fits])
  have mem: "Max (set targets) \<in> set targets"
    using ne by (intro Max_in) simp_all
  with assms(3) have mx: "0 \<le> Max (set targets) \<and> Max (set targets) < int ?C"
    by (rule bspec)
  have "snd (forward self logits targets) \<noteq> Inl BroadcastMismatch"
    using assms(4) by auto
  with forward_outcome[OF assms(1) ne assms(2,3) fits, of self]
  have "Max (set targets) + 1 = int ?C \<or> Max (set targets) + 1 = 1"
    by blast
  with mx have width: "?M = ?C \<or> ?M = 1" by auto
  have "fst (forward self logits targets) = self\<lparr>cache := Some (?sm, ?oh)\<rparr>"
    by (simp add: forward_cached[OF sm oh])
  with sm oh width show ?thesis by simp
qed

lemma backward_cache_only:
  "cache self = cache other \<Longrightarrow> backward self upstream_gradient = backward other upstream_gradient"
  by (simp add: backward_def)


text \<open>
  Claim C3. After \<open>forward logits targets\<close> has returned, the cache holds the pair
  (softmaxed, one_hot), every row of one_hot sums to 1, and for every upstream
  gradient of length \<open>n\<close> \<open>backward\<close> returns the pair of arrays with
  \<open>grad_logits[i] = upstream_gradient[i] * (softmaxed[i] - one_hot[i])\<close> and
  \<open>grad_one_hot[i] = - upstream_gradient[i] * ln (softmaxed[i])\<close>. The one-hot array
  has the width of the logits, or width 1, and then its column is read for every
  class, as numpy broadcasts it.
\<close>

theorem backward_contract:
  assumes "well_shaped logits" and "length targets = nrows logits"
    and "\<forall>t\<in>set targets. 0 \<le> t \<and> t < int (ncols logits)"
    and "\<not> isl (snd (forward self logits targets))"
    and "length upstream_gradient = nrows logits"
  shows "\<exists>softmaxed one_hot.
           softmax logits = Inr softmaxed
         \<and> to_one_hot targets None = Inr one_hot
         \<and> cache (fst (forward self logits targets)) = Some (softmaxed, one_hot)
         \<and> (\<forall>r\<in>set (rows one_hot). sum_list r = 1)
         \<and> backward (fst (forward self logits targets)) upstream_gradient =
             Inr (\<lparr>ncols = ncols logits,
                   rows = map (\<lambda>i. map (\<lambda>j. upstream_gradient ! i
                              * (rows softmaxed ! i ! j
                                 - rows one_hot ! i ! (if ncols one_hot = ncols logits then j else 0)))
                                          [0..<ncols logits])
                              [0..<nrows logits]\<rparr>,
                  \<lparr>ncols = ncols logits,
                   rows = map (\<lambda>i. map (\<lambda>a. - upstream_gradient ! i * ln a) (rows softmaxed ! i))
                              [0..<nrows logits]\<rparr>)"
proof -
  let ?C = "ncols logits"
  let ?M = "nat (Max (set targets) + 1)"
  let ?sm = "\<lparr>ncols = ?C, rows = map softmax_row (rows logits)\<rparr>"
  let ?oh = "\<lparr>ncols = ?M,
              rows = map (\<lambda>l. map (\<lambda>j. if nat l = j then 1 else 0) [0..<?M]) targets\<rparr>"
  let ?self = "fst (forward self logits targets)"
  from forward_returned[OF assms(1-4)]
  have sm: "softmax logits = Inr ?sm" and oh: "to_one_hot targets None = Inr ?oh"
    and width: "?M = ?C \<or> ?M = 1"
    and fw: "?self = self\<lparr>cache := Some (?sm, ?oh)\<rparr>"
    by auto
  have ne: "targets \<noteq> []"
    using oh by (cases targets) (simp_all add: to_one_hot_no_labels)
  have c: "cache ?self = Some (?sm, ?oh)"
    unfolding fw by simp
  have w0: "well_shaped ?sm"
    using assms(1) by (simp add: well_shaped_def list_all_iff softmax_row_def)
  have n1: "nrows ?oh = nrows ?sm"
    using assms(2) by (simp add: nrows_def)
  have m1: "ncols ?oh = ncols ?sm \<or> ncols ?oh = 1"
    using width by simp
  have up: "length upstream_gradient = nrows ?sm"
    using assms(5) by (simp add: nrows_def)
  have one: "\<forall>r\<in>set (rows ?oh). sum_list r = 1"
  proof
    fix r assume "r \<in> set (rows ?oh)"
    then obtain l where l: "l \<in> set targets"
      and r: "r = map (\<lambda>j. if nat l = j then 1 else 0) [0..<?M]"
      by auto
    from l have "l \<le> Max (set targets)" by simp
    moreover from l assms(3) have "0 \<le> l" by blast
    ultimately have "nat l < ?M" by linarith
    then show "sum_list r = 1"
      unfolding r by (rule sum_list_one_hot_row)
  qed
  have shape: "ncols ?sm = ?C" "nrows ?sm = nrows logits"
    by (simp_all add: nrows_def)
  from backward_on_cache[OF c w0 n1 m1 up one]
  have "backward ?self upstream_gradient =
             Inr (\<lparr>ncols = ?C,
                   rows = map (\<lambda>i. map (\<lambda>j. upstream_gradient ! i
                              * (rows ?sm ! i ! j
                                 - rows ?oh ! i ! (if ncols ?oh = ?C then j else 0)))
                                          [0..<?C])
                              [0..<nrows logits]\<rparr>,
                  \<lparr>ncols = ?C,
                   rows = map (\<lambda>i. map (\<lambda>a. - upstream_gradient ! i * ln a) (rows ?sm ! i))
                              [0..<nrows logits]\<rparr>)"
    unfolding shape .
  with sm oh c one show ?thesis by blast
qed

theorem backward_contract_witness:
  "well_shaped \<lparr>ncols = 2, rows = [[0, 1], [3, 2]]\<rparr>
   \<and> length [1, 0 :: int] = nrows \<lparr>ncols = 2, rows = [[0, 1], [3, 2]]\<rparr>
   \<and> list_all (\<lambda>t. 0 \<le> t \<and> t < int (ncols \<lparr>ncols = 2, rows = [[0, 1], [3, 2]]\<rparr>)) [1, 0 :: int]
   \<and> \<not> isl (snd (forward \<lparr>cache = None\<rparr> \<lparr>ncols = 2, rows = [[0, 1], [3, 2]]\<rparr> [1, 0]))
   \<and> length [1, 2 :: real] = nrows \<lparr>ncols = 2, rows = [[0, 1], [3, 2]]\<rparr>
   \<and> (\<exists>softmaxed one_hot.
           softmax \<lparr>ncols = 2, rows = [[0, 1], [3, 2]]\<rparr> = Inr softmaxed
         \<and> to_one_hot [1, 0] None = Inr one_hot
         \<and> cache (fst (forward \<lparr>cache = None\<rparr> \<lparr>ncols = 2, rows = [[0, 1], [3, 2]]\<rparr> [1, 0]))
             = Some (softmaxed, one_hot)
         \<and> (\<forall>r\<in>set (rows one_hot). sum_list r = 1)
         \<and> backward (fst (forward \<lparr>cache = None\<rparr> \<lparr>ncols = 2, rows = [[0, 1], [3, 2]]\<rparr> [1, 0]))
               [1, 2] =
             Inr (\<lparr>ncols = 2,
                   rows = map (\<lambda>i. map (\<lambda>j. [1, 2] ! i
                              * (rows softmaxed ! i ! j
                                 - rows one_hot ! i ! (if ncols one_hot = 2 then j else 0)))
                                          [0..<2])
                              [0..<2]\<rparr>,
                  \<lparr>ncols = 2,
                   rows = map (\<lambda>i. map (\<lambda>a. - [1, 2] ! i * ln a) (rows softmaxed ! i))
                              [0..<2]\<rparr>))"
proof -
  have h: "well_shaped \<lparr>ncols = 2, rows = [[0, 1], [3, 2]]\<rparr>"
    "length [1, 0 :: int] = nrows \<lparr>ncols = 2, rows = [[0, 1], [3, 2]]\<rparr>"
    "\<forall>t\<in>set [1, 0 :: int]. 0 \<le> t \<and> t < int (ncols \<lparr>ncols = 2, rows = [[0, 1], [3, 2]]\<rparr>)"
    "\<not> isl (snd (forward \<lparr>cache = None\<rparr> \<lparr>ncols = 2, rows = [[0, 1], [3, 2]]\<rparr> [1, 0]))"
    "length [1, 2 :: real] = nrows \<lparr>ncols = 2, rows = [[0, 1], [3, 2]]\<rparr>"
    by (simp_all add: well_shaped_def forward_def softmax_def max_axis1_def reshape_col_def
      broadcast_def nrows_def bshape_def np_exp_def sum_axis1_def to_one_hot_def np_max_def
      np_eye_def take_rows_def np_log_def wrap_int64_def)
  have n: "nrows \<lparr>ncols = 2, rows = [[0, 1], [3, 2]]\<rparr> = 2"
    "ncols \<lparr>ncols = 2, rows = [[0, 1], [3, 2]]\<rparr> = 2"
    by (simp_all add: nrows_def)
  have r: "list_all (\<lambda>t. 0 \<le> t \<and> t < int (ncols \<lparr>ncols = 2, rows = [[0, 1], [3, 2]]\<rparr>)) [1, 0 :: int]"
    by simp
  from backward_contract[OF h] h r show ?thesis
    unfolding n by blast
qed

lemma softmax_two_zeros:
  "softmax \<lparr>ncols = 2, rows = [[0, 0]]\<rparr> = Inr \<lparr>ncols = 2, rows = [[1 / 2, 1 / 2]]\<rparr>"
  by (simp add: softmax_def max_axis1_def row_max_def reshape_col_def broadcast_def
      nrows_def bshape_def bidx_def np_exp_def sum_axis1_def upt_rec)

lemma softmax_one_zero:
  "softmax \<lparr>ncols = 1, rows = [[0]]\<rparr> = Inr \<lparr>ncols = 1, rows = [[1]]\<rparr>"
  by (simp add: softmax_def max_axis1_def row_max_def reshape_col_def broadcast_def
      nrows_def bshape_def bidx_def np_exp_def sum_axis1_def upt_rec)

lemma one_hot_of_one: "to_one_hot [1] None = Inr \<lparr>ncols = 2, rows = [[0, 1]]\<rparr>"
  by (simp add: to_one_hot_def np_max_def np_eye_def take_rows_def nrows_def wrap_int64_def upt_rec)

lemma one_hot_of_zero: "to_one_hot [0] None = Inr \<lparr>ncols = 1, rows = [[1]]\<rparr>"
  by (simp add: to_one_hot_def np_max_def np_eye_def take_rows_def nrows_def wrap_int64_def upt_rec)

lemma softmax_empty_batch:
  "softmax \<lparr>ncols = 2, rows = []\<rparr> = Inr \<lparr>ncols = 2, rows = []\<rparr>"
  by (simp add: softmax_def max_axis1_def row_max_def reshape_col_def broadcast_def
      nrows_def bshape_def bidx_def np_exp_def sum_axis1_def)

text \<open>
  Claim C6, as amended. \<open>forward\<close> changes no attribute of the object but the cache,
  and what it returns or raises does not depend on the state it starts from. A call
  in which \<open>softmax\<close> and \<open>to_one_hot\<close> both succeed, as in every call that returns,
  overwrites the cache with the pair (softmax logits, one-hot targets) of the current
  arguments, before the product is formed and also when the product then raises; what
  a following \<open>backward\<close> returns is then the same from any earlier state. A call that
  raises in \<open>softmax\<close> or in \<open>to_one_hot\<close> leaves the object as it was.
\<close>

theorem forward_overwrites_cache:
  "ce_op.more (fst (forward self logits targets)) = ce_op.more self
   \<and> snd (forward self logits targets) = snd (forward other logits targets)
   \<and> (softmax logits = Inr softmaxed \<and> to_one_hot targets None = Inr one_hot \<longrightarrow>
         cache (fst (forward self logits targets)) = Some (softmaxed, one_hot)
       \<and> cache (fst (forward other logits targets)) = Some (softmaxed, one_hot)
       \<and> backward (fst (forward self logits targets)) upstream_gradient
           = backward (fst (forward other logits targets)) upstream_gradient)
   \<and> (isl (softmax logits) \<or> isl (to_one_hot targets None) \<longrightarrow>
         fst (forward self logits targets) = self \<and> isl (snd (forward self logits targets)))
   \<and> (\<not> isl (snd (forward self logits targets)) \<longrightarrow>
         \<not> isl (softmax logits) \<and> \<not> isl (to_one_hot targets None))"
proof (intro conjI impI)
  show "ce_op.more (fst (forward self logits targets)) = ce_op.more self"
    by (simp add: forward_def split: sum.splits)
  show "snd (forward self logits targets) = snd (forward other logits targets)"
    by (simp add: forward_def split: sum.splits)
  show early: "fst (forward self logits targets) = self"
    if "isl (softmax logits) \<or> isl (to_one_hot targets None)"
    using that by (auto simp: forward_def isl_def split: sum.splits)
  show raised: "isl (snd (forward self logits targets))"
    if "isl (softmax logits) \<or> isl (to_one_hot targets None)"
    using that by (auto simp: forward_def isl_def split: sum.splits)
  show "\<not> isl (softmax logits)" if "\<not> isl (snd (forward self logits targets))"
    using that raised by blast
  show "\<not> isl (to_one_hot targets None)" if "\<not> isl (snd (forward self logits targets))"
    using that raised by blast
next
  assume both: "softmax logits = Inr softmaxed \<and> to_one_hot targets None = Inr one_hot"
  then have sm: "softmax logits = Inr softmaxed" and oh: "to_one_hot targets None = Inr one_hot"
    by simp_all
  show c1: "cache (fst (forward self logits targets)) = Some (softmaxed, one_hot)"
    by (simp add: forward_cached[OF sm oh])
  show c2: "cache (fst (forward other logits targets)) = Some (softmaxed, one_hot)"
    by (simp add: forward_cached[OF sm oh])
  show "backward (fst (forward self logits targets)) upstream_gradient
           = backward (fst (forward other logits targets)) upstream_gradient"
    using c1 c2 by (intro backward_cache_only) simp
qed

theorem forward_overwrites_cache_witness:
  "softmax \<lparr>ncols = 2, rows = [[0, 0]]\<rparr> = Inr \<lparr>ncols = 2, rows = [[1 / 2, 1 / 2]]\<rparr>
   \<and> to_one_hot [1] None = Inr \<lparr>ncols = 2, rows = [[0, 1]]\<rparr>
   \<and> cache (fst (forward \<lparr>cache = None\<rparr> \<lparr>ncols = 2, rows = [[0, 0]]\<rparr> [1]))
       = Some (\<lparr>ncols = 2, rows = [[1 / 2, 1 / 2]]\<rparr>, \<lparr>ncols = 2, rows = [[0, 1]]\<rparr>)
   \<and> backward (fst (forward \<lparr>cache = None\<rparr> \<lparr>ncols = 2, rows = [[0, 0]]\<rparr> [1])) [1]
       = backward (fst (forward \<lparr>cache = Some (\<lparr>ncols = 1, rows = [[1]]\<rparr>, \<lparr>ncols = 1, rows = [[1]]\<rparr>)\<rparr>
                          \<lparr>ncols = 2, rows = [[0, 0]]\<rparr> [1])) [1]
   \<and> isl (to_one_hot [] None)
   \<and> fst (forward \<lparr>cache = Some (\<lparr>ncols = 1, rows = [[1]]\<rparr>, \<lparr>ncols = 1, rows = [[1]]\<rparr>)\<rparr>
             \<lparr>ncols = 2, rows = []\<rparr> [])
       = \<lparr>cache = Some (\<lparr>ncols = 1, rows = [[1]]\<rparr>, \<lparr>ncols = 1, rows = [[1]]\<rparr>)\<rparr>"
proof -
  have e: "isl (to_one_hot [] None)"
    by (simp add: to_one_hot_no_labels)
  from forward_overwrites_cache[of "\<lparr>cache = None\<rparr>" "\<lparr>ncols = 2, rows = [[0, 0]]\<rparr>" "[1]"
      "\<lparr>cache = Some (\<lparr>ncols = 1, rows = [[1]]\<rparr>, \<lparr>ncols = 1, rows = [[1]]\<rparr>)\<rparr>"
      "\<lparr>ncols = 2, rows = [[1 / 2, 1 / 2]]\<rparr>" "\<lparr>ncols = 2, rows = [[0, 1]]\<rparr>" "[1]"]
    forward_overwrites_cache[of
      "\<lparr>cache = Some (\<lparr>ncols = 1, rows = [[1]]\<rparr>, \<lparr>ncols = 1, rows = [[1]]\<rparr>)\<rparr>"
      "\<lparr>ncols = 2, rows = []\<rparr>" "[]"]
    softmax_two_zeros one_hot_of_one e
  show ?thesis by blast
qed

text \<open>
  Claim C6 as stated fails for a call that raises before the assignment. After a
  \<open>forward\<close> on an empty batch, which raises in \<open>np.max\<close> of the empty targets, the cache
  still holds the pair of the call before, and \<open>backward\<close> returns different gradients
  after two different earlier calls.
\<close>

theorem backward_after_raising_forward:
  "cache (fst (forward \<lparr>cache = None\<rparr> \<lparr>ncols = 1, rows = [[0]]\<rparr> [0]))
     = Some (\<lparr>ncols = 1, rows = [[1]]\<rparr>, \<lparr>ncols = 1, rows = [[1]]\<rparr>)
   \<and> cache (fst (forward \<lparr>cache = None\<rparr> \<lparr>ncols = 2, rows = [[0, 0]]\<rparr> [1]))
     = Some (\<lparr>ncols = 2, rows = [[1 / 2, 1 / 2]]\<rparr>, \<lparr>ncols = 2, rows = [[0, 1]]\<rparr>)
   \<and> snd (forward (fst (forward \<lparr>cache = None\<rparr> \<lparr>ncols = 1, rows = [[0]]\<rparr> [0]))
              \<lparr>ncols = 2, rows = []\<rparr> [])
     = Inl ZeroSizeReduction
   \<and> cache (fst (forward (fst (forward \<lparr>cache = None\<rparr> \<lparr>ncols = 1, rows = [[0]]\<rparr> [0]))
              \<lparr>ncols = 2, rows = []\<rparr> []))
     = Some (\<lparr>ncols = 1, rows = [[1]]\<rparr>, \<lparr>ncols = 1, rows = [[1]]\<rparr>)
   \<and> backward (fst (forward (fst (forward \<lparr>cache = None\<rparr> \<lparr>ncols = 1, rows = [[0]]\<rparr> [0]))
              \<lparr>ncols = 2, rows = []\<rparr> [])) [1]
     = Inr (\<lparr>ncols = 1, rows = [[0]]\<rparr>, \<lparr>ncols = 1, rows = [[0]]\<rparr>)
   \<and> backward (fst (forward (fst (forward \<lparr>cache = None\<rparr> \<lparr>ncols = 2, rows = [[0, 0]]\<rparr> [1]))
              \<lparr>ncols = 2, rows = []\<rparr> [])) [1]
     = Inr (\<lparr>ncols = 2, rows = [[1 / 2, - (1 / 2)]]\<rparr>,
            \<lparr>ncols = 2, rows = [[- ln (1 / 2), - ln (1 / 2)]]\<rparr>)
   \<and> backward (fst (forward (fst (forward \<lparr>cache = None\<rparr> \<lparr>ncols = 1, rows = [[0]]\<rparr> [0]))
              \<lparr>ncols = 2, rows = []\<rparr> [])) [1]
     \<noteq> backward (fst (forward (fst (forward \<lparr>cache = None\<rparr> \<lparr>ncols = 2, rows = [[0, 0]]\<rparr> [1]))
              \<lparr>ncols = 2, rows = []\<rparr> [])) [1]"
proof -
  let ?c1 = "(\<lparr>ncols = 1, rows = [[1]]\<rparr>, \<lparr>ncols = 1, rows = [[1]]\<rparr>)"
  let ?c2 = "(\<lparr>ncols = 2, rows = [[1 / 2, 1 / 2]]\<rparr>, \<lparr>ncols = 2, rows = [[0, 1]]\<rparr>)"
  have s1: "fst (forward \<lparr>cache = None\<rparr> \<lparr>ncols = 1, rows = [[0]]\<rparr> [0]) = \<lparr>cache = Some ?c1\<rparr>"
    unfolding forward_cached[OF softmax_one_zero one_hot_of_zero] by simp
  have s2: "fst (forward \<lparr>cache = None\<rparr> \<lparr>ncols = 2, rows = [[0, 0]]\<rparr> [1]) = \<lparr>cache = Some ?c2\<rparr>"
    unfolding forward_cached[OF softmax_two_zeros one_hot_of_one] by simp
  have r: "forward self \<lparr>ncols = 2, rows = []\<rparr> [] = (self, Inl ZeroSizeReduction)"
    for self :: ce_op
    by (simp add: forward_def softmax_empty_batch to_one_hot_no_labels)
  have b1: "backward \<lparr>cache = Some ?c1\<rparr> [1]
              = Inr (\<lparr>ncols = 1, rows = [[0]]\<rparr>, \<lparr>ncols = 1, rows = [[0]]\<rparr>)"
    by (simp add: backward_def reshape_col_def broadcast_def nrows_def bshape_def bidx_def
        sum_axis1_def np_log_def np_neg_def upt_rec)
  have b2: "backward \<lparr>cache = Some ?c2\<rparr> [1]
              = Inr (\<lparr>ncols = 2, rows = [[1 / 2, - (1 / 2)]]\<rparr>,
                     \<lparr>ncols = 2, rows = [[- ln (1 / 2), - ln (1 / 2)]]\<rparr>)"
    by (simp add: backward_def reshape_col_def broadcast_def nrows_def bshape_def bidx_def
        sum_axis1_def np_log_def np_neg_def upt_rec)
  show ?thesis
    unfolding s1 s2 r fst_conv snd_conv b1 b2 by simp
qed

section \<open>Metric accumulation and reset\<close>

lemma metric_calls_state:
  "map (\<lambda>(logits, labels). forward_fn logits labels) batches = map Inr vals \<Longrightarrow>
     metric_calls forward_fn self batches =
       \<lparr>metric_cache = metric_cache self + sum_list vals,
        metric_i = metric_i self + int (length vals)\<rparr>"
proof (induction batches arbitrary: self vals)
  case Nil
  then show ?case by (simp add: metric_calls_def)
next
  case (Cons b batches)
  obtain logits labels where b: "b = (logits, labels)" by (cases b)
  from Cons.prems obtain v vs where vals: "vals = v # vs"
    and v: "forward_fn logits labels = Inr v"
    and rest: "map (\<lambda>(logits, labels). forward_fn logits labels) batches = map Inr vs"
    unfolding b by (cases vals) auto
  let ?s = "fst (metric_call forward_fn self logits labels)"
  have step: "?s = \<lparr>metric_cache = metric_cache self + v, metric_i = metric_i self + 1\<rparr>"
    by (simp add: metric_call_def v Let_def)
  have "metric_calls forward_fn self (b # batches) = metric_calls forward_fn ?s batches"
    by (simp add: metric_calls_def b)
  also have "\<dots> = \<lparr>metric_cache = metric_cache ?s + sum_list vs,
                     metric_i = metric_i ?s + int (length vs)\<rparr>"
    by (rule Cons.IH[OF rest])
  finally show ?case
    unfolding step vals by (simp add: add.assoc)
qed

lemma evaluate_resets: "\<not> isl (snd (evaluate prev)) \<Longrightarrow> fst (evaluate prev) = Metric_init"
  by (simp add: evaluate_def Metric_init_def split: if_splits)

text \<open>
  Claim C10. Starting from a metric that was just constructed or just evaluated,
  after \<open>k \<ge> 1\<close> calls \<open>evaluate\<close> returns the arithmetic mean of the \<open>k\<close> forward values
  and resets \<open>cache\<close> and \<open>i\<close> to 0; \<open>evaluate\<close> with no call since the last reset raises
  a division by zero.
\<close>

theorem metric_evaluate_mean:
  assumes "self = Metric_init \<or> (\<exists>prev. \<not> isl (snd (evaluate prev)) \<and> self = fst (evaluate prev))"
    and "batches \<noteq> []"
    and "map (\<lambda>(logits, labels). forward_fn logits labels) batches = map Inr vals"
  shows "evaluate (metric_calls forward_fn self batches)
           = (\<lparr>metric_cache = 0, metric_i = 0\<rparr>, Inr (sum_list vals / real (length vals)))
       \<and> length vals = length batches
       \<and> evaluate self = (self, Inl ZeroDivision)
       \<and> evaluate (fst (evaluate (metric_calls forward_fn self batches)))
           = (fst (evaluate (metric_calls forward_fn self batches)), Inl ZeroDivision)"
proof -
  have self: "self = Metric_init"
    using assms(1) evaluate_resets by blast
  have len: "length vals = length batches"
    using arg_cong[OF assms(3), of length] by simp
  with assms(2) have pos: "int (length vals) \<noteq> 0" by simp
  have st: "metric_calls forward_fn self batches =
              \<lparr>metric_cache = sum_list vals, metric_i = int (length vals)\<rparr>"
    using metric_calls_state[OF assms(3), of self] by (simp add: self Metric_init_def)
  have ev: "evaluate (metric_calls forward_fn self batches)
           = (\<lparr>metric_cache = 0, metric_i = 0\<rparr>, Inr (sum_list vals / real (length vals)))"
    unfolding st using pos by (simp add: evaluate_def)
  have z: "evaluate self = (self, Inl ZeroDivision)"
    by (simp add: self evaluate_def Metric_init_def)
  have z2: "evaluate \<lparr>metric_cache = 0, metric_i = 0\<rparr> = (\<lparr>metric_cache = 0, metric_i = 0\<rparr>, Inl ZeroDivision)"
    by (simp add: evaluate_def)
  show ?thesis
    by (simp add: ev z z2 len)
qed

theorem metric_evaluate_mean_witness:
  "\<not> isl (snd (evaluate \<lparr>metric_cache = 5, metric_i = 2\<rparr>))
   \<and> [((), ()), ((), ())] \<noteq> []
   \<and> map (\<lambda>(logits, labels). (\<lambda>logits labels. Inr 3 :: error + real) logits labels) [((), ()), ((), ())]
       = map Inr [3, 3 :: real]
   \<and> evaluate (metric_calls (\<lambda>logits labels. Inr 3)
                  (fst (evaluate \<lparr>metric_cache = 5, metric_i = 2\<rparr>)) [((), ()), ((), ())])
       = (\<lparr>metric_cache = 0, metric_i = 0\<rparr>, Inr (sum_list [3, 3] / real (length [3, 3 :: real])))
   \<and> evaluate (fst (evaluate \<lparr>metric_cache = 5, metric_i = 2\<rparr>))
       = (fst (evaluate \<lparr>metric_cache = 5, metric_i = 2\<rparr>), Inl ZeroDivision)"
proof -
  have ret: "\<not> isl (snd (evaluate \<lparr>metric_cache = 5, metric_i = 2\<rparr>))"
    by (simp add: evaluate_def)
  then have start: "fst (evaluate \<lparr>metric_cache = 5, metric_i = 2\<rparr>) = Metric_init
     \<or> (\<exists>prev. \<not> isl (snd (evaluate prev))
           \<and> fst (evaluate \<lparr>metric_cache = 5, metric_i = 2\<rparr>) = fst (evaluate prev))"
    by blast
  have vals: "map (\<lambda>(logits, labels). (\<lambda>logits labels. Inr 3 :: error + real) logits labels)
                  [((), ()), ((), ())] = map Inr [3, 3 :: real]"
    by simp
  from metric_evaluate_mean[OF start _ vals] ret vals show ?thesis
    by simp
qed


section \<open>Freezing and unfreezing\<close>

lemma set_flags:
  "fold (\<lambda>param st. st(param := (st param)\<lparr>requires_grad := b\<rparr>)) params st
   = (\<lambda>a. if a \<in> set params then (st a)\<lparr>requires_grad := b\<rparr> else st a)"
proof (induction params arbitrary: st)
  case Nil
  then show ?case by simp
next
  case (Cons p params)
  show ?case
    unfolding fold_simps Cons.IH by (rule ext) simp
qed

text \<open>
  Claim C8. \<open>freeze\<close> sets \<open>requires_grad\<close> to False on every parameter of the features
  and changes nothing else: a parameter outside the features, such as one of the
  regressor, keeps its flag, and no parameter's data changes. \<open>unfreeze\<close> sets the
  flag to True on the same parameters, so after \<open>freeze\<close> and \<open>unfreeze\<close> every
  parameter whose flag was True has it True again.
\<close>

theorem freeze_touches_features_only:
  "(\<forall>a\<in>set (features self). \<not> requires_grad (freeze self st a))
   \<and> (\<forall>a. a \<notin> set (features self) \<longrightarrow> freeze self st a = st a)
   \<and> (\<forall>a. data (freeze self st a) = data (st a))
   \<and> (set (features self) \<inter> set (regressor self) = {} \<longrightarrow>
        (\<forall>a\<in>set (regressor self). freeze self st a = st a))
   \<and> (\<forall>a\<in>set (features self). requires_grad (unfreeze self st a))
   \<and> (\<forall>a. a \<notin> set (features self) \<longrightarrow> unfreeze self st a = st a)
   \<and> (\<forall>a. data (unfreeze self st a) = data (st a))
   \<and> (\<forall>a\<in>set (features self). requires_grad (unfreeze self (freeze self st) a))
   \<and> (\<forall>a. requires_grad (st a) \<longrightarrow> unfreeze self (freeze self st) a = st a)"
  unfolding freeze_def unfreeze_def set_flags by auto

theorem freeze_touches_features_only_witness:
  "set (features \<lparr>features = [0, 1], regressor = [2]\<rparr>)
     \<inter> set (regressor \<lparr>features = [0, 1], regressor = [2]\<rparr>) = {}
   \<and> freeze \<lparr>features = [0, 1], regressor = [2]\<rparr>
        (\<lambda>a. \<lparr>data = [real a], requires_grad = True\<rparr>) 2
      = \<lparr>data = [2], requires_grad = True\<rparr>
   \<and> freeze \<lparr>features = [0, 1], regressor = [2]\<rparr>
        (\<lambda>a. \<lparr>data = [real a], requires_grad = True\<rparr>) 1
      = \<lparr>data = [1], requires_grad = False\<rparr>
   \<and> unfreeze \<lparr>features = [0, 1], regressor = [2]\<rparr>
        (freeze \<lparr>features = [0, 1], regressor = [2]\<rparr>
          (\<lambda>a. \<lparr>data = [real a], requires_grad = True\<rparr>)) 1
      = \<lparr>data = [1], requires_grad = True\<rparr>"
proof -
  let ?m = "\<lparr>features = [0, 1], regressor = [2]\<rparr>"
  let ?st = "\<lambda>a. \<lparr>data = [real a], requires_grad = True\<rparr>"
  note t = freeze_touches_features_only[of ?m ?st]
  have "freeze ?m ?st 2 = \<lparr>data = [2], requires_grad = True\<rparr>"
    using t by simp
  moreover have "data (freeze ?m ?st 1) = [1]" "\<not> requires_grad (freeze ?m ?st 1)"
    using t by simp_all
  then have "freeze ?m ?st 1 = \<lparr>data = [1], requires_grad = False\<rparr>"
    by (cases "freeze ?m ?st 1") simp
  moreover have "unfreeze ?m (freeze ?m ?st) 1 = \<lparr>data = [1], requires_grad = True\<rparr>"
    using t by simp
  ultimately show ?thesis by simp
qed

section \<open>The label file\<close>

lemma append_files:
  "fold (\<lambda>f df. df_append df (f, i)) files df = df\<lparr>df_rows := df_rows df @ map (\<lambda>f. (f, i)) files\<rparr>"
  by (induction files arbitrary: df) (simp_all add: df_append_def)

lemma scandir_files:
  "map fst (filter (\<lambda>(p, f). is_file f) (scandir path (children nd)))
   = map (path_join path) (files_of nd)"
  by (simp add: scandir_def files_of_def filter_map comp_def split_def)

lemma folder_step:
  "fold (\<lambda>f df. df_append df (f, i))
        (map fst (filter (\<lambda>(p, f). is_file f) (scandir path (children nd)))) df
   = df\<lparr>df_rows := df_rows df @ map (\<lambda>fname. (path_join path fname, i)) (files_of nd)\<rparr>"
  by (simp only: append_files scandir_files map_map comp_def)

lemma append_folders:
  "fold (\<lambda>(i, (path, nd)) df.
           df\<lparr>df_rows := df_rows df @ map (\<lambda>fname. (path_join path fname, i)) (files_of nd)\<rparr>)
        folders df
   = df\<lparr>df_rows := df_rows df @
        concat (map (\<lambda>(i, (path, nd)). map (\<lambda>fname. (path_join path fname, i)) (files_of nd))
                    folders)\<rparr>"
proof (induction folders arbitrary: df)
  case Nil
  then show ?case by simp
next
  case (Cons x folders)
  obtain i path nd where x: "x = (i, (path, nd))" by (cases x) auto
  show ?case
    unfolding x fold_simps Cons.IH by simp
qed

lemma scandir_subfolders:
  "filter (\<lambda>(path, nd). is_dir nd) (scandir root_dir entries)
   = map (\<lambda>(name, nd). (path_join root_dir name, nd)) (subfolder_entries entries)"
  by (simp add: scandir_def subfolder_entries_def filter_map comp_def split_def)

lemma enumerate_map:
  "enumerate n (map f xs) = map (\<lambda>(i, x). (i, f x)) (enumerate n xs)"
  by (induction xs arbitrary: n) simp_all

lemma create_csv_rows:
  "create_csv root_dir out_name entries =
     (root_dir @ out_name,
      \<lparr>df_columns = [''file_path'', ''label''],
       df_rows = concat (map (\<lambda>(i, (name, nd)).
                                map (\<lambda>fname. (path_join (path_join root_dir name) fname, i))
                                    (files_of nd))
                             (enumerate 0 (subfolder_entries entries)))\<rparr>)"
proof -
  have "create_csv root_dir out_name entries =
     (root_dir @ out_name,
      fold (\<lambda>(i, (path, nd)) df.
              df\<lparr>df_rows := df_rows df @ map (\<lambda>fname. (path_join path fname, i)) (files_of nd)\<rparr>)
           (enumerate 0 (map (\<lambda>(name, nd). (path_join root_dir name, nd)) (subfolder_entries entries)))
           \<lparr>df_columns = [''file_path'', ''label''], df_rows = []\<rparr>)"
    unfolding create_csv_def Let_def folder_step scandir_subfolders by (rule refl)
  then show ?thesis
    unfolding append_folders enumerate_map by (simp add: comp_def split_def)
qed


lemma files_of_pruned:
  "files_of (Directory (filter (\<lambda>(n, f). is_file f) (children nd))) = files_of nd"
  by (simp add: files_of_def)

lemma subfolder_entries_immediate_only:
  "subfolder_entries (immediate_only entries) = immediate_only entries"
  by (simp add: subfolder_entries_def immediate_only_def filter_map comp_def split_def)

lemma rows_immediate_only:
  "concat (map (\<lambda>(i, (name, nd)).
                  map (\<lambda>fname. (path_join (path_join root_dir name) fname, i)) (files_of nd))
               (enumerate 0 (immediate_only entries)))
   = concat (map (\<lambda>(i, (name, nd)).
                  map (\<lambda>fname. (path_join (path_join root_dir name) fname, i)) (files_of nd))
               (enumerate 0 (subfolder_entries entries)))"
  unfolding immediate_only_def enumerate_map
  by (simp add: comp_def split_def files_of_pruned[unfolded split_def])

lemma count_rows:
  "length (concat (map (\<lambda>(i, (name, nd)).
                  map (\<lambda>fname. (path_join (path_join root_dir name) fname, i)) (files_of nd))
               (enumerate 0 folders)))
   = sum_list (map (\<lambda>(name, nd). length (files_of nd)) folders)"
proof -
  have "map ((\<lambda>q. length (files_of (snd q))) \<circ> snd) (enumerate 0 folders)
        = map (\<lambda>q. length (files_of (snd q))) (map snd (enumerate 0 folders))"
    by (simp only: map_map)
  also have "\<dots> = map (\<lambda>q. length (files_of (snd q))) folders"
    by (simp only: map_snd_enumerate)
  finally show ?thesis
    by (simp add: length_concat comp_def split_def)
qed

lemma row_membership:
  "(p, l) \<in> set (concat (map (\<lambda>(i, (name, nd)).
                  map (\<lambda>fname. (path_join (path_join root_dir name) fname, i)) (files_of nd))
               (enumerate 0 folders)))
   \<longleftrightarrow> l < length folders
       \<and> (\<exists>fname. fname \<in> set (files_of (snd (folders ! l)))
             \<and> p = path_join (path_join root_dir (fst (folders ! l))) fname)"
proof
  assume "(p, l) \<in> set (concat (map (\<lambda>(i, (name, nd)).
                  map (\<lambda>fname. (path_join (path_join root_dir name) fname, i)) (files_of nd))
               (enumerate 0 folders)))"
  then show "l < length folders
       \<and> (\<exists>fname. fname \<in> set (files_of (snd (folders ! l)))
             \<and> p = path_join (path_join root_dir (fst (folders ! l))) fname)"
    by (auto simp: in_set_enumerate_eq split_def)
next
  assume r: "l < length folders
       \<and> (\<exists>fname. fname \<in> set (files_of (snd (folders ! l)))
             \<and> p = path_join (path_join root_dir (fst (folders ! l))) fname)"
  then obtain fname where f: "fname \<in> set (files_of (snd (folders ! l)))"
    and p: "p = path_join (path_join root_dir (fst (folders ! l))) fname"
    by blast
  have x: "(l, folders ! l) \<in> set (enumerate 0 folders)"
    using r by (simp add: in_set_enumerate_eq)
  have "(p, l) \<in> set ((\<lambda>(i, (name, nd)).
                  map (\<lambda>fname. (path_join (path_join root_dir name) fname, i)) (files_of nd))
                 (l, folders ! l))"
    using f p by (simp add: split_def)
  with x show "(p, l) \<in> set (concat (map (\<lambda>(i, (name, nd)).
                  map (\<lambda>fname. (path_join (path_join root_dir name) fname, i)) (files_of nd))
               (enumerate 0 folders)))"
    unfolding set_concat set_map by blast
qed

text \<open>
  Claim C7. \<open>create_csv\<close> writes, at \<open>root + out_name\<close>, a table with exactly the columns
  \<open>file_path\<close> and \<open>label\<close> and one row per regular file directly in a subfolder of the
  root: the file's path, and the position of its subfolder in the enumeration of the
  subfolders. Files directly under the root and files nested deeper take no part:
  removing them leaves the table the same.
\<close>

theorem create_csv_schema:
  "fst (create_csv root_dir out_name entries) = root_dir @ out_name
   \<and> df_columns (snd (create_csv root_dir out_name entries)) = [''file_path'', ''label'']
   \<and> df_rows (snd (create_csv root_dir out_name entries))
       = concat (map (\<lambda>(i, (name, nd)).
                        map (\<lambda>fname. (path_join (path_join root_dir name) fname, i)) (files_of nd))
                     (enumerate 0 (subfolder_entries entries)))
   \<and> length (df_rows (snd (create_csv root_dir out_name entries)))
       = sum_list (map (\<lambda>(name, nd). length (files_of nd)) (subfolder_entries entries))
   \<and> ((p, l) \<in> set (df_rows (snd (create_csv root_dir out_name entries)))
        \<longleftrightarrow> l < length (subfolder_entries entries)
            \<and> (\<exists>fname. fname \<in> set (files_of (snd (subfolder_entries entries ! l)))
                  \<and> p = path_join (path_join root_dir (fst (subfolder_entries entries ! l))) fname))
   \<and> create_csv root_dir out_name (immediate_only entries) = create_csv root_dir out_name entries"
  unfolding create_csv_rows subfolder_entries_immediate_only rows_immediate_only
    fst_conv snd_conv dataframe.simps count_rows row_membership
  by simp

theorem create_csv_schema_witness:
  "create_csv ''./data/'' ''labels.csv''
     [(''dogs'', Directory [(''a.jpg'', RegularFile),
                           (''more'', Directory [(''deep.jpg'', RegularFile)])]),
      (''notes.txt'', RegularFile),
      (''hotdogs'', Directory [(''b.jpg'', RegularFile)])]
   = (''./data/labels.csv'',
      \<lparr>df_columns = [''file_path'', ''label''],
       df_rows = [(''./data/dogs/a.jpg'', 0), (''./data/hotdogs/b.jpg'', 1)]\<rparr>)"
proof -
  let ?entries = "[(''dogs'', Directory [(''a.jpg'', RegularFile),
                           (''more'', Directory [(''deep.jpg'', RegularFile)])]),
      (''notes.txt'', RegularFile),
      (''hotdogs'', Directory [(''b.jpg'', RegularFile)])]"
  have "df_rows (snd (create_csv ''./data/'' ''labels.csv'' ?entries))
         = [(''./data/dogs/a.jpg'', 0), (''./data/hotdogs/b.jpg'', 1)]"
    using create_csv_schema[of "''./data/''" "''labels.csv''" ?entries]
    by (simp add: subfolder_entries_def files_of_def path_join_def)
  moreover have "fst (create_csv ''./data/'' ''labels.csv'' ?entries) = ''./data/labels.csv''"
    "df_columns (snd (create_csv ''./data/'' ''labels.csv'' ?entries)) = [''file_path'', ''label'']"
    using create_csv_schema[of "''./data/''" "''labels.csv''" ?entries]
    by simp_all
  ultimately show ?thesis
    by (cases "create_csv ''./data/'' ''labels.csv'' ?entries") (simp add: dataframe.equality)
qed

end
